theory Spec2Isabelle
  imports Main "HOL-Library.AList"
begin

section \<open>The JavaScript values that AssetManager.js handles\<close>

text \<open>
  The class body of \<^verbatim>\<open>AssetManager\<close> is strict-mode code. A method either completes with
  a value or throws; the two errors the source can raise by itself are a
  \<^verbatim>\<open>ReferenceError\<close> (assignment to an identifier with no binding) and a
  \<^verbatim>\<open>TypeError\<close> (property access on \<^verbatim>\<open>undefined\<close>).
\<close>

datatype js_error = ReferenceError | TypeError

datatype 'a completion = Normal 'a | Throw js_error

text \<open>
  Counters are JavaScript numbers. The model keeps the integer values and \<^verbatim>\<open>NaN\<close>
  (integers are exact in a double below \<open>2^53\<close>; an array holds fewer than \<open>2^32\<close>
  elements). A field of the instance that was never assigned reads \<^verbatim>\<open>undefined\<close>,
  written \<open>None\<close>.
\<close>

datatype jsnumber = NaN | Num int

definition to_number :: "jsnumber option \<Rightarrow> jsnumber" where
  "to_number v = (case v of None \<Rightarrow> NaN | Some n \<Rightarrow> n)"

fun js_add :: "jsnumber \<Rightarrow> jsnumber \<Rightarrow> jsnumber" where
  "js_add (Num a) (Num b) = Num (a + b)"
| "js_add NaN b = NaN"
| "js_add (Num a) NaN = NaN"

text \<open>\<^verbatim>\<open>x++\<close> on a field: the field becomes \<^verbatim>\<open>ToNumber(x) + 1\<close>.\<close>

definition increment :: "jsnumber option \<Rightarrow> jsnumber option" where
  "increment v = Some (js_add (to_number v) (Num 1))"

text \<open>\<^verbatim>\<open>array.length === n\<close>: a length is never \<^verbatim>\<open>NaN\<close>.\<close>

definition strict_equals :: "nat \<Rightarrow> jsnumber \<Rightarrow> bool" where
  "strict_equals len n = (case n of NaN \<Rightarrow> False | Num k \<Rightarrow> int len = k)"

definition truthy :: "bool option \<Rightarrow> bool" where
  "truthy v = (v = Some True)"

section \<open>The instance and its surroundings\<close>

record AssetManagerOptions =
  debugging :: bool

text \<open>
  The fields the methods read through \<^verbatim>\<open>this\<close>. \<open>cache\<close> is a plain JavaScript object
  used as a dictionary from path to image: an association list in insertion order, one
  entry per key that \<^verbatim>\<open>this.cache[key] = img\<close> has stored. A store under a key creates
  or overwrites a property of the object itself, except under \<^verbatim>\<open>__proto__\<close>, where it
  makes the image the prototype of the object; the entry of that key records it, and
  reading the key yields that image either way. Reading a key that has not been stored
  finds what the object inherits from \<^verbatim>\<open>Object.prototype\<close> (see \<open>object_prototype\<close>).
  An image is an object of the browser, identified by the number of images created before
  it; what the cache object answers through an image that became its prototype belongs
  to that image and is not modelled.
  \<open>this_debugging\<close> is the property \<^verbatim>\<open>this.debugging\<close> that \<^verbatim>\<open>debug\<close> reads, as
  opposed to \<^verbatim>\<open>this.options.debugging\<close>.
\<close>

record AssetManager =
  successCount :: "jsnumber option"
  errorCount :: "jsnumber option"
  cache :: "(string \<times> nat) list option"
  downloadQueue :: "string list option"
  options :: AssetManagerOptions
  this_debugging :: "bool option"

text \<open>
  One image created by \<^verbatim>\<open>downloadAll\<close> whose \<^verbatim>\<open>src\<close> has been set and whose
  \<^verbatim>\<open>load\<close> or \<^verbatim>\<open>error\<close> event has not fired yet, with what its two listeners
  captured: the path and the callback (a function, identified by a number; what the
  callback itself does is outside the model).
\<close>

record fetch =
  img :: nat
  downloadPath :: string
  callback :: nat

text \<open>
  A call of the callback: the function called, the arguments of the call expression, and
  the instance as it is at that moment.
\<close>

record call =
  call_fn :: nat
  call_args :: "string list"
  call_state :: AssetManager

datatype log_entry = Log string | LogValue string string

record world =
  manager :: AssetManager
  listeners :: "fetch list"
  invoked :: "call list"
  console :: "log_entry list"
  images :: nat

datatype outcome = Loaded | Failed

section \<open>The constructor\<close>

text \<open>
  \<^verbatim>\<open>constructor(options = { debugging: false })\<close>. The four assignments
  \<^verbatim>\<open>successCount = 0\<close>, \<^verbatim>\<open>errorCount = 0\<close>, \<^verbatim>\<open>cache = {}\<close>,
  \<^verbatim>\<open>downloadQueue = []\<close> have no \<^verbatim>\<open>this.\<close>: each one assigns to an identifier of
  the enclosing scope. \<open>declared\<close> is the set of identifiers with a writable binding
  there. In strict code an assignment to an identifier outside it throws; otherwise the
  binding of the enclosing scope is assigned and the instance is not touched (the values
  of those bindings are read by no method and are not modelled). Only
  \<^verbatim>\<open>this.options = options\<close> writes to the instance.
\<close>

definition constructor :: "string set \<Rightarrow> AssetManagerOptions option \<Rightarrow> AssetManager completion" where
  "constructor declared arg =
     (let opts = (case arg of None \<Rightarrow> \<lparr>debugging = False\<rparr> | Some v \<Rightarrow> v) in
      if ''successCount'' \<notin> declared then Throw ReferenceError
      else if ''errorCount'' \<notin> declared then Throw ReferenceError
      else if ''cache'' \<notin> declared then Throw ReferenceError
      else if ''downloadQueue'' \<notin> declared then Throw ReferenceError
      else Normal \<lparr>successCount = None, errorCount = None, cache = None,
                   downloadQueue = None, options = opts, this_debugging = None\<rparr>)"

definition new_world :: "AssetManager \<Rightarrow> world" where
  "new_world m = \<lparr>manager = m, listeners = [], invoked = [], console = [], images = 0\<rparr>"

section \<open>The methods\<close>

definition debug :: "string \<Rightarrow> string option \<Rightarrow> world \<Rightarrow> world" where
  "debug message val w =
     (if \<not> truthy (this_debugging (manager w)) then w
      else (case val of
              None \<Rightarrow> w\<lparr>console := console w @ [Log message]\<rparr>
            | Some v \<Rightarrow> w\<lparr>console := console w @ [LogValue message v]\<rparr>))"

definition queueDownload :: "string \<Rightarrow> world \<Rightarrow> unit completion \<times> world" where
  "queueDownload path w =
     (case downloadQueue (manager w) of
        None \<Rightarrow> (Throw TypeError, w)
      | Some q \<Rightarrow>
          (Normal (),
           debug (''Queued '' @ path @ '' for download'') None
             (w\<lparr>manager := (manager w)\<lparr>downloadQueue := Some (q @ [path])\<rparr>\<rparr>)))"

definition isDone :: "world \<Rightarrow> bool completion \<times> world" where
  "isDone w =
     (case downloadQueue (manager w) of
        None \<Rightarrow> (Throw TypeError, w)
      | Some q \<Rightarrow>
          (Normal (strict_equals (length q)
             (js_add (to_number (successCount (manager w))) (to_number (errorCount (manager w))))),
           w))"

text \<open>
  \<^verbatim>\<open>callback()\<close>: a call with no arguments. The callback is taken to return normally
  without touching the instance; what it returns (which \<^verbatim>\<open>downloadAll\<close> passes on for
  an empty queue) is not modelled.
\<close>

definition invoke :: "nat \<Rightarrow> world \<Rightarrow> world" where
  "invoke cb w = w\<lparr>invoked := invoked w @ [\<lparr>call_fn = cb, call_args = [], call_state = manager w\<rparr>]\<rparr>"

text \<open>The listener registered for \<^verbatim>\<open>'load'\<close>.\<close>

definition load_listener :: "fetch \<Rightarrow> world \<Rightarrow> unit completion \<times> world" where
  "load_listener f w =
     (let w1 = debug (''Loaded '' @ downloadPath f) None w;
          w2 = w1\<lparr>manager := (manager w1)\<lparr>successCount := increment (successCount (manager w1))\<rparr>\<rparr>
      in case fst (isDone w2) of
           Throw e \<Rightarrow> (Throw e, w2)
         | Normal b \<Rightarrow> if b then (Normal (), invoke (callback f) w2) else (Normal (), w2))"

text \<open>The listener registered for \<^verbatim>\<open>'error'\<close>.\<close>

definition error_listener :: "fetch \<Rightarrow> world \<Rightarrow> unit completion \<times> world" where
  "error_listener f w =
     (let w1 = debug (''Error loading '' @ downloadPath f) None w;
          w2 = w1\<lparr>manager := (manager w1)\<lparr>errorCount := increment (errorCount (manager w1))\<rparr>\<rparr>
      in case fst (isDone w2) of
           Throw e \<Rightarrow> (Throw e, w2)
         | Normal b \<Rightarrow> if b then (Normal (), invoke (callback f) w2) else (Normal (), w2))"

text \<open>
  The \<^verbatim>\<open>for ... of\<close> loop of \<^verbatim>\<open>downloadAll\<close>, over the paths still to visit. One
  round creates the image, registers the two listeners, sets \<^verbatim>\<open>img.src\<close> (from then on
  the fetch is under way) and only then stores the image in the cache; the store throws
  when \<^verbatim>\<open>this.cache\<close> is \<^verbatim>\<open>undefined\<close>, with the fetch of that round already issued.
\<close>

fun issue :: "nat \<Rightarrow> string list \<Rightarrow> world \<Rightarrow> unit completion \<times> world" where
  "issue cb [] w = (Normal (), w)"
| "issue cb (p # rest) w =
     (let i = images w;
          w1 = w\<lparr>images := Suc i,
                 listeners := listeners w @ [\<lparr>img = i, downloadPath = p, callback = cb\<rparr>]\<rparr>
      in case cache (manager w1) of
           None \<Rightarrow> (Throw TypeError, w1)
         | Some c \<Rightarrow>
             issue cb rest (w1\<lparr>manager := (manager w1)\<lparr>cache := Some (AList.update p i c)\<rparr>\<rparr>))"

definition downloadAll :: "nat \<Rightarrow> world \<Rightarrow> unit completion \<times> world" where
  "downloadAll cb w =
     (case downloadQueue (manager w) of
        None \<Rightarrow> (Throw TypeError, w)
      | Some q \<Rightarrow> if length q = 0 then (Normal (), invoke cb w) else issue cb q w)"

text \<open>
  The names of the properties of \<^verbatim>\<open>Object.prototype\<close>, which every plain object
  inherits: none of them reads \<^verbatim>\<open>undefined\<close> (eleven are functions, and
  \<^verbatim>\<open>__proto__\<close> reads the prototype).
\<close>

definition object_prototype :: "string list" where
  "object_prototype =
     [''constructor'', ''hasOwnProperty'', ''isPrototypeOf'', ''propertyIsEnumerable'',
      ''toLocaleString'', ''toString'', ''valueOf'', ''__proto__'',
      ''__defineGetter__'', ''__defineSetter__'', ''__lookupGetter__'', ''__lookupSetter__'']"

text \<open>
  What \<^verbatim>\<open>this.cache[path]\<close> can be when it is not \<^verbatim>\<open>undefined\<close>: an image stored under
  that key, or the value of the inherited property of that name.
\<close>

datatype asset = Image nat | Inherited string

text \<open>
  \<^verbatim>\<open>getAsset\<close> returns \<^verbatim>\<open>this.cache[path]\<close>, or \<^verbatim>\<open>null\<close> (\<open>None\<close>) when that is
  \<^verbatim>\<open>undefined\<close>.
\<close>

definition getAsset :: "string \<Rightarrow> world \<Rightarrow> asset option completion \<times> world" where
  "getAsset path w =
     (case cache (manager w) of
        None \<Rightarrow> (Throw TypeError, w)
      | Some c \<Rightarrow>
          (case map_of c path of
             Some i \<Rightarrow> (Normal (Some (Image i)), w)
           | None \<Rightarrow>
               if path \<in> set object_prototype then (Normal (Some (Inherited path)), w)
               else (Normal None, debug (''Asset '' @ path @ '' not found in cache'') None w)))"

section \<open>Events and runs\<close>

text \<open>
  The browser fires \<^verbatim>\<open>load\<close> or \<^verbatim>\<open>error\<close> on an image once: the image leaves
  \<open>listeners\<close> and the listener of that event runs. An event for an image that is not
  waiting does nothing. An error thrown inside a listener is reported, not propagated.
\<close>

definition settle :: "nat \<Rightarrow> outcome \<Rightarrow> world \<Rightarrow> unit completion \<times> world" where
  "settle i out w =
     (case find (\<lambda>f. img f = i) (listeners w) of
        None \<Rightarrow> (Normal (), w)
      | Some f \<Rightarrow>
          (let w1 = w\<lparr>listeners := remove1 f (listeners w)\<rparr>
           in case out of Loaded \<Rightarrow> load_listener f w1 | Failed \<Rightarrow> error_listener f w1))"

fun settles :: "(nat \<times> outcome) list \<Rightarrow> world \<Rightarrow> world" where
  "settles [] w = w"
| "settles ((i, out) # evs) w = settles evs (snd (settle i out w))"

datatype operation =
  QueueDownload string | DownloadAll nat | IsDone | GetAsset string | Settle nat outcome

datatype returned = Undefined | Boolean bool | Asset "asset option"

fun step :: "operation \<Rightarrow> world \<Rightarrow> returned completion \<times> world" where
  "step (QueueDownload path) w =
     (case queueDownload path w of (Normal u, w1) \<Rightarrow> (Normal Undefined, w1) | (Throw e, w1) \<Rightarrow> (Throw e, w1))"
| "step (DownloadAll cb) w =
     (case downloadAll cb w of (Normal u, w1) \<Rightarrow> (Normal Undefined, w1) | (Throw e, w1) \<Rightarrow> (Throw e, w1))"
| "step IsDone w =
     (case isDone w of (Normal b, w1) \<Rightarrow> (Normal (Boolean b), w1) | (Throw e, w1) \<Rightarrow> (Throw e, w1))"
| "step (GetAsset path) w =
     (case getAsset path w of (Normal a, w1) \<Rightarrow> (Normal (Asset a), w1) | (Throw e, w1) \<Rightarrow> (Throw e, w1))"
| "step (Settle i out) w =
     (case settle i out w of (Normal u, w1) \<Rightarrow> (Normal Undefined, w1) | (Throw e, w1) \<Rightarrow> (Throw e, w1))"

text \<open>
  A run: the operations in order, each on the world the previous one left, also after an
  operation that threw (the caller caught the error).
\<close>

fun run :: "operation list \<Rightarrow> world \<Rightarrow> returned completion list \<times> world" where
  "run [] w = ([], w)"
| "run (x # xs) w =
     (case step x w of (r, w1) \<Rightarrow> (case run xs w1 of (rs, w2) \<Rightarrow> (r # rs, w2)))"

section \<open>Notions used to state the properties\<close>

text \<open>
  The fetches that one pass of the loop of \<^verbatim>\<open>downloadAll\<close> issues for the paths \<open>ps\<close>,
  when \<open>n\<close> images exist already, and the cache after that pass.
\<close>

definition issued :: "nat \<Rightarrow> nat \<Rightarrow> string list \<Rightarrow> fetch list" where
  "issued cb n ps =
     map (\<lambda>(i, p). \<lparr>img = i, downloadPath = p, callback = cb\<rparr>) (zip [n..<n + length ps] ps)"

definition stored :: "nat \<Rightarrow> string list \<Rightarrow> (string \<times> nat) list \<Rightarrow> (string \<times> nat) list" where
  "stored n ps c = fold (\<lambda>(i, p). AList.update p i) (zip [n..<n + length ps] ps) c"

text \<open>\<^verbatim>\<open>this.successCount + this.errorCount\<close>, as \<^verbatim>\<open>isDone\<close> computes it.\<close>

definition settled :: "AssetManager \<Rightarrow> jsnumber" where
  "settled m = js_add (to_number (successCount m)) (to_number (errorCount m))"

text \<open>
  An instance as the comments of the constructor describe a new one, but with the paths
  \<open>q\<close> queued: both counters \<open>0\<close>, an empty cache, \<^verbatim>\<open>this.debugging\<close> never assigned.
  The constructor as written does not build such an instance (see \<open>constructor\<close>); the
  properties of the methods are stated for every instance that has the fields they read,
  however it got them, and \<open>queued\<close> supplies concrete ones.
\<close>

definition queued :: "string list \<Rightarrow> AssetManager" where
  "queued q = \<lparr>successCount = Some (Num 0), errorCount = Some (Num 0), cache = Some [],
     downloadQueue = Some q, options = \<lparr>debugging = False\<rparr>, this_debugging = None\<rparr>"

text \<open>
  What holds from the return of \<^verbatim>\<open>downloadAll cb\<close> on the queue \<open>q\<close> (counters \<open>0\<close>,
  nothing pending before, \<open>i0\<close> the calls made before) to the end of that cycle: every
  fetch is either counted or still pending, and the callback has been called, once,
  exactly when nothing is pending any more.
\<close>

definition cycle_inv :: "nat \<Rightarrow> string list \<Rightarrow> call list \<Rightarrow> world \<Rightarrow> bool" where
  "cycle_inv cb q i0 w \<longleftrightarrow>
     downloadQueue (manager w) = Some q \<and>
     (\<exists>s e. successCount (manager w) = Some (Num s) \<and> errorCount (manager w) = Some (Num e) \<and>
            s + e + int (length (listeners w)) = int (length q)) \<and>
     (\<forall>f\<in>set (listeners w). callback f = cb) \<and>
     distinct (map img (listeners w)) \<and>
     (if listeners w = []
      then \<exists>c. invoked w = i0 @ [c] \<and> call_fn c = cb \<and> call_args c = [] \<and>
               settled (call_state c) = Num (int (length q))
      else invoked w = i0)"



text \<open>Every call of a callback recorded so far passed no arguments.\<close>

definition no_arguments :: "world \<Rightarrow> bool" where
  "no_arguments w \<longleftrightarrow> list_all (\<lambda>c. call_args c = []) (invoked w)"


text \<open>The number of calls of \<^verbatim>\<open>downloadAll\<close> in a run.\<close>

fun is_downloadAll :: "operation \<Rightarrow> bool" where
  "is_downloadAll (DownloadAll cb) = True"
| "is_downloadAll x = False"

definition downloadAlls :: "operation list \<Rightarrow> nat" where
  "downloadAlls xs = length (filter is_downloadAll xs)"

text \<open>
  What holds along a run with at most one call of \<^verbatim>\<open>downloadAll\<close> that starts with both
  counters \<open>0\<close> and nothing pending; \<open>started\<close> tells whether that call has been made.
\<close>

definition one_cycle :: "bool \<Rightarrow> world \<Rightarrow> bool" where
  "one_cycle started w \<longleftrightarrow>
     (\<exists>q c s e. downloadQueue (manager w) = Some q \<and> cache (manager w) = Some c \<and>
        successCount (manager w) = Some (Num s) \<and> errorCount (manager w) = Some (Num e) \<and>
        0 \<le> s \<and> 0 \<le> e \<and> s + e + int (length (listeners w)) \<le> int (length q) \<and>
        (started \<or> (s = 0 \<and> e = 0 \<and> listeners w = [])))"

text \<open>
  The world with the option object blanked, in the instance and in the instances recorded
  with the calls: two worlds are the same up to the options when \<open>forget_options\<close> maps
  them to the same world.
\<close>

definition forget_options :: "world \<Rightarrow> world" where
  "forget_options w =
     w\<lparr>manager := (manager w)\<lparr>options := \<lparr>debugging = False\<rparr>\<rparr>,
       invoked := map (\<lambda>c. c\<lparr>call_state := (call_state c)\<lparr>options := \<lparr>debugging = False\<rparr>\<rparr>\<rparr>)
                     (invoked w)\<rparr>"

text \<open>
  \<^verbatim>\<open>new AssetManager(arg)\<close> (\<open>None\<close>: no argument) in a scope that declares the
  identifiers \<open>declared\<close>, followed by the operations \<open>xs\<close> on the new instance.
\<close>

definition session ::
  "string set \<Rightarrow> AssetManagerOptions option \<Rightarrow> operation list \<Rightarrow>
   (returned completion list \<times> world) completion" where
  "session declared arg xs =
     (case constructor declared arg of
        Throw e \<Rightarrow> Throw e
      | Normal m \<Rightarrow> Normal (run xs (new_world m)))"

text \<open>
  The instance has a queue, a cache and numeric counters, and as long as the queue is
  empty both counters are \<open>0\<close> and nothing is pending.
\<close>

definition zero_while_empty :: "world \<Rightarrow> bool" where
  "zero_while_empty w \<longleftrightarrow>
     (\<exists>q c s e. downloadQueue (manager w) = Some q \<and> cache (manager w) = Some c \<and>
        successCount (manager w) = Some (Num s) \<and> errorCount (manager w) = Some (Num e) \<and>
        (q = [] \<longrightarrow> s = 0 \<and> e = 0 \<and> listeners w = []))"

section \<open>Lemmas about the model\<close>

lemma debug_fields [simp]:
  "manager (debug m v w) = manager w"
  "listeners (debug m v w) = listeners w"
  "invoked (debug m v w) = invoked w"
  "images (debug m v w) = images w"
  by (simp_all add: debug_def split: option.splits)

lemma debug_silent: "\<not> truthy (this_debugging (manager w)) \<Longrightarrow> debug m v w = w"
  by (simp add: debug_def)

lemma issued_Nil [simp]: "issued cb n [] = []"
  by (simp add: issued_def)

lemma issued_Cons: "issued cb n (p # ps) = \<lparr>img = n, downloadPath = p, callback = cb\<rparr> # issued cb (Suc n) ps"
  by (simp add: issued_def upt_rec)

lemma stored_Nil [simp]: "stored n [] c = c"
  by (simp add: stored_def)

lemma stored_Cons: "stored n (p # ps) c = stored (Suc n) ps (AList.update p n c)"
  by (simp add: stored_def upt_rec)

lemma issue_result:
  "cache (manager w) = Some c \<Longrightarrow>
   issue cb ps w =
     (Normal (),
      w\<lparr>images := images w + length ps,
        listeners := listeners w @ issued cb (images w) ps,
        manager := (manager w)\<lparr>cache := Some (stored (images w) ps c)\<rparr>\<rparr>)"
proof (induction ps arbitrary: w c)
  case Nil
  then show ?case by simp
next
  case (Cons p ps)
  let ?w = "w\<lparr>images := Suc (images w),
            listeners := listeners w @ [\<lparr>img = images w, downloadPath = p, callback = cb\<rparr>],
            manager := (manager w)\<lparr>cache := Some (AList.update p (images w) c)\<rparr>\<rparr>"
  have "issue cb (p # ps) w = issue cb ps ?w"
    using Cons.prems by (simp add: Let_def)
  also have "\<dots> = (Normal (),
      ?w\<lparr>images := images ?w + length ps,
        listeners := listeners ?w @ issued cb (images ?w) ps,
        manager := (manager ?w)\<lparr>cache := Some (stored (images ?w) ps (AList.update p (images w) c))\<rparr>\<rparr>)"
    by (rule Cons.IH) simp
  finally show ?case
    by (simp add: issued_Cons stored_Cons)
qed

lemma issued_length [simp]: "length (issued cb n ps) = length ps"
  by (simp add: issued_def)

lemma issued_empty [simp]: "issued cb n ps = [] \<longleftrightarrow> ps = []"
  by (auto simp: issued_def)

lemma issued_img [simp]: "map img (issued cb n ps) = [n..<n + length ps]"
  by (induction ps arbitrary: n) (simp_all add: issued_Cons upt_rec)

lemma issued_path [simp]: "map downloadPath (issued cb n ps) = ps"
  by (induction ps arbitrary: n) (simp_all add: issued_Cons)


lemma downloadAll_result:
  assumes "downloadQueue (manager w) = Some q" "q \<noteq> []" "cache (manager w) = Some c"
  shows "downloadAll cb w =
     (Normal (),
      w\<lparr>images := images w + length q,
        listeners := listeners w @ issued cb (images w) q,
        manager := (manager w)\<lparr>cache := Some (stored (images w) q c)\<rparr>\<rparr>)"
  using assms by (simp add: downloadAll_def issue_result)


lemma find_img:
  "find (\<lambda>f. img f = i) fs = Some f \<Longrightarrow> f \<in> set fs \<and> img f = i"
  by (induction fs) (auto split: if_splits)

lemma find_img_None:
  "find (\<lambda>f. img f = i) fs = None \<longleftrightarrow> i \<notin> img ` set fs"
  by (induction fs) auto

lemma distinct_img_remove1:
  "distinct (map img fs) \<Longrightarrow> f \<in> set fs \<Longrightarrow>
   distinct (map img (remove1 f fs)) \<and> img ` set (remove1 f fs) = img ` set fs - {img f}"
  by (induction fs) auto

lemma listener_result:
  assumes "downloadQueue (manager w) = Some q"
    and "successCount (manager w) = Some (Num s)"
    and "errorCount (manager w) = Some (Num e)"
  shows "load_listener f w =
           (Normal (),
            let w2 = (debug (''Loaded '' @ downloadPath f) None w)
                       \<lparr>manager := (manager w)\<lparr>successCount := Some (Num (s + 1))\<rparr>\<rparr>
            in if s + e + 1 = int (length q) then invoke (callback f) w2 else w2)"
    and "error_listener f w =
           (Normal (),
            let w2 = (debug (''Error loading '' @ downloadPath f) None w)
                       \<lparr>manager := (manager w)\<lparr>errorCount := Some (Num (e + 1))\<rparr>\<rparr>
            in if s + e + 1 = int (length q) then invoke (callback f) w2 else w2)"
  using assms
  by (auto simp: load_listener_def error_listener_def isDone_def Let_def increment_def
      to_number_def strict_equals_def)

lemma settle_cycle_inv:
  assumes "cycle_inv cb q i0 w"
  shows "cycle_inv cb q i0 (snd (settle i out w)) \<and>
         img ` set (listeners (snd (settle i out w))) = img ` set (listeners w) - {i}"
proof (cases "find (\<lambda>f. img f = i) (listeners w)")
  case None
  then have "settle i out w = (Normal (), w)" by (simp add: settle_def)
  moreover have "i \<notin> img ` set (listeners w)" using None by (simp add: find_img_None)
  ultimately show ?thesis using assms by simp
next
  case (Some f)
  then have f: "f \<in> set (listeners w)" "img f = i" by (auto dest: find_img)
  from assms obtain s e where
    q: "downloadQueue (manager w) = Some q" and
    s: "successCount (manager w) = Some (Num s)" and
    e: "errorCount (manager w) = Some (Num e)" and
    sum: "s + e + int (length (listeners w)) = int (length q)" and
    cb: "\<forall>f\<in>set (listeners w). callback f = cb" and
    d: "distinct (map img (listeners w))" and
    i0: "invoked w = i0"
    using f by (auto simp: cycle_inv_def split: if_splits)
  let ?w1 = "w\<lparr>listeners := remove1 f (listeners w)\<rparr>"
  have pos: "0 < length (listeners w)" using f(1) by (rule length_pos_if_in_set)
  have "length (remove1 f (listeners w)) = length (listeners w) - 1"
    using f(1) by (simp add: length_remove1)
  with pos have len: "int (length (remove1 f (listeners w))) = int (length (listeners w)) - 1"
    by linarith
  have rem: "distinct (map img (remove1 f (listeners w)))"
    "img ` set (remove1 f (listeners w)) = img ` set (listeners w) - {i}"
    using distinct_img_remove1 [OF d f(1)] f(2) by auto
  have cbf: "callback f = cb" using cb f(1) by blast
  have cb': "\<forall>g\<in>set (remove1 f (listeners w)). callback g = cb"
    using cb by (meson notin_set_remove1)
  have empty_iff: "remove1 f (listeners w) = [] \<longleftrightarrow> s + e + 1 = int (length q)"
  proof -
    have "remove1 f (listeners w) = [] \<longleftrightarrow> int (length (remove1 f (listeners w))) = 0"
      by simp
    also have "\<dots> \<longleftrightarrow> s + e + 1 = int (length q)"
      using len sum by linarith
    finally show ?thesis .
  qed
  show ?thesis
  proof (cases out)
    case Loaded
    have "settle i out w = load_listener f ?w1"
      using Some Loaded by (simp add: settle_def)
    then show ?thesis
      using listener_result(1) [of ?w1 q s e f] q s e sum len rem cbf cb' i0 empty_iff
      by (auto simp: cycle_inv_def Let_def invoke_def settled_def to_number_def)
  next
    case Failed
    have "settle i out w = error_listener f ?w1"
      using Some Failed by (simp add: settle_def)
    then show ?thesis
      using listener_result(2) [of ?w1 q s e f] q s e sum len rem cbf cb' i0 empty_iff
      by (auto simp: cycle_inv_def Let_def invoke_def settled_def to_number_def)
  qed
qed


lemma settles_all:
  "cycle_inv cb q i0 w \<Longrightarrow> distinct (map fst evs) \<Longrightarrow>
   set (map fst evs) = img ` set (listeners w) \<Longrightarrow>
   listeners (settles evs w) = []"
proof (induction evs arbitrary: w)
  case Nil
  then show ?case by simp
next
  case (Cons ev evs)
  obtain i out where ev: "ev = (i, out)" by (cases ev)
  let ?w1 = "snd (settle i out w)"
  from settle_cycle_inv [OF Cons.prems(1), of i out]
  have inv: "cycle_inv cb q i0 ?w1"
    and ls: "img ` set (listeners ?w1) = img ` set (listeners w) - {i}" by auto
  have "set (map fst evs) = img ` set (listeners ?w1)"
    using Cons.prems(2,3) ev ls by auto
  then have "listeners (settles evs ?w1) = []"
    using Cons.IH [OF inv] Cons.prems(2) by simp
  then show ?case by (simp add: ev)
qed

lemma issue_invoked [simp]: "invoked (snd (issue cb ps w)) = invoked w"
  by (induction ps arbitrary: w) (simp_all add: Let_def split: option.splits)

lemma invoke_no_arguments: "no_arguments w \<Longrightarrow> no_arguments (invoke cb w)"
  by (simp add: no_arguments_def invoke_def)

lemma no_arguments_listeners [simp]: "no_arguments (w\<lparr>listeners := l\<rparr>) = no_arguments w"
  by (simp add: no_arguments_def)

lemma listener_no_arguments:
  "no_arguments w \<Longrightarrow> no_arguments (snd (load_listener f w))"
  "no_arguments w \<Longrightarrow> no_arguments (snd (error_listener f w))"
  by (auto simp: load_listener_def error_listener_def Let_def no_arguments_def invoke_def
      split: completion.splits)

lemma step_snd:
  "snd (step (QueueDownload p) w) = snd (queueDownload p w)"
  "snd (step (DownloadAll cb) w) = snd (downloadAll cb w)"
  "snd (step IsDone w) = snd (isDone w)"
  "snd (step (GetAsset p) w) = snd (getAsset p w)"
  "snd (step (Settle i out) w) = snd (settle i out w)"
  by (simp_all split: prod.splits completion.splits)

lemma run_snd_Cons: "snd (run (x # xs) w) = snd (run xs (snd (step x w)))"
  by (simp split: prod.splits)

lemma step_no_arguments:
  assumes "no_arguments w"
  shows "no_arguments (snd (step x w))"
proof (cases x)
  case (QueueDownload p)
  have "no_arguments (snd (queueDownload p w))" using assms
    by (auto simp: queueDownload_def no_arguments_def split: option.splits)
  then show ?thesis by (simp only: QueueDownload step_snd)
next
  case (DownloadAll cb)
  have "no_arguments (snd (downloadAll cb w))" using assms
    by (auto simp: downloadAll_def no_arguments_def invoke_def split: option.splits)
  then show ?thesis by (simp only: DownloadAll step_snd)
next
  case IsDone
  have "no_arguments (snd (isDone w))" using assms
    by (auto simp: isDone_def no_arguments_def split: option.splits)
  then show ?thesis by (simp only: IsDone step_snd)
next
  case (GetAsset p)
  have "no_arguments (snd (getAsset p w))" using assms
    by (auto simp: getAsset_def no_arguments_def split: option.splits)
  then show ?thesis by (simp only: GetAsset step_snd)
next
  case (Settle i out)
  have "no_arguments (snd (settle i out w))" using assms
    by (auto simp: settle_def Let_def listener_no_arguments
        split: option.splits outcome.splits)
  then show ?thesis by (simp only: Settle step_snd)
qed

lemma run_no_arguments: "no_arguments w \<Longrightarrow> no_arguments (snd (run xs w))"
proof (induction xs arbitrary: w)
  case Nil
  then show ?case by simp
next
  case (Cons x xs)
  from Cons.prems have "no_arguments (snd (step x w))" by (rule step_no_arguments)
  then have "no_arguments (snd (run xs (snd (step x w))))" by (rule Cons.IH)
  then show ?case by (simp only: run_snd_Cons)
qed






lemma listener_manager:
  "cache (manager (snd (load_listener f w))) = cache (manager w)"
  "downloadQueue (manager (snd (load_listener f w))) = downloadQueue (manager w)"
  "cache (manager (snd (error_listener f w))) = cache (manager w)"
  "downloadQueue (manager (snd (error_listener f w))) = downloadQueue (manager w)"
  by (auto simp: load_listener_def error_listener_def Let_def invoke_def split: completion.splits)

lemma settle_manager [simp]:
  "cache (manager (snd (settle i out w))) = cache (manager w)"
  "downloadQueue (manager (snd (settle i out w))) = downloadQueue (manager w)"
  by (auto simp: settle_def Let_def listener_manager split: option.splits outcome.splits)

lemma settles_manager [simp]:
  "cache (manager (settles evs w)) = cache (manager w)"
  "downloadQueue (manager (settles evs w)) = downloadQueue (manager w)"
  by (induction evs arbitrary: w) auto










lemma run_snd_append: "snd (run (xs @ [x]) w) = snd (step x (snd (run xs w)))"
proof (induction xs arbitrary: w)
  case Nil
  show ?case by (simp split: prod.splits)
next
  case (Cons y ys)
  have "snd (run ((y # ys) @ [x]) w) = snd (run (ys @ [x]) (snd (step y w)))"
    by (simp only: append_Cons run_snd_Cons)
  also have "\<dots> = snd (step x (snd (run ys (snd (step y w)))))"
    by (rule Cons.IH)
  finally show ?case by (simp only: run_snd_Cons)
qed

lemma settle_counts:
  assumes "downloadQueue (manager w) = Some q"
    and "successCount (manager w) = Some (Num s)"
    and "errorCount (manager w) = Some (Num e)"
  shows "\<exists>s' e'. successCount (manager (snd (settle i out w))) = Some (Num s') \<and>
     errorCount (manager (snd (settle i out w))) = Some (Num e') \<and>
     s \<le> s' \<and> e \<le> e' \<and>
     s' + e' + int (length (listeners (snd (settle i out w)))) = s + e + int (length (listeners w))"
proof (cases "find (\<lambda>f. img f = i) (listeners w)")
  case None
  then have "settle i out w = (Normal (), w)" by (simp add: settle_def)
  then show ?thesis using assms by simp
next
  case (Some f)
  then have f: "f \<in> set (listeners w)" by (auto dest: find_img)
  let ?w1 = "w\<lparr>listeners := remove1 f (listeners w)\<rparr>"
  have pos: "0 < length (listeners w)" using f by (rule length_pos_if_in_set)
  have "length (remove1 f (listeners w)) = length (listeners w) - 1"
    using f by (simp add: length_remove1)
  with pos have len: "int (length (remove1 f (listeners w))) = int (length (listeners w)) - 1"
    by linarith
  have q: "downloadQueue (manager ?w1) = Some q"
    and s: "successCount (manager ?w1) = Some (Num s)"
    and e: "errorCount (manager ?w1) = Some (Num e)"
    using assms by simp_all
  show ?thesis
  proof (cases out)
    case Loaded
    then have "settle i out w = load_listener f ?w1" using Some by (simp add: settle_def)
    then show ?thesis
      unfolding listener_result(1) [OF q s e] using assms len
      by (simp add: Let_def invoke_def)
  next
    case Failed
    then have "settle i out w = error_listener f ?w1" using Some by (simp add: settle_def)
    then show ?thesis
      unfolding listener_result(2) [OF q s e] using assms len
      by (simp add: Let_def invoke_def)
  qed
qed

lemma step_one_cycle:
  assumes "one_cycle st w" and "is_downloadAll x \<Longrightarrow> \<not> st"
  shows "one_cycle (st \<or> is_downloadAll x) (snd (step x w)) \<and>
    (\<exists>s e s' e'. successCount (manager w) = Some (Num s) \<and>
        errorCount (manager w) = Some (Num e) \<and>
        successCount (manager (snd (step x w))) = Some (Num s') \<and>
        errorCount (manager (snd (step x w))) = Some (Num e') \<and> s \<le> s' \<and> e \<le> e')"
proof -
  from assms(1) obtain q c s e where
    q: "downloadQueue (manager w) = Some q" and c: "cache (manager w) = Some c" and
    s: "successCount (manager w) = Some (Num s)" and e: "errorCount (manager w) = Some (Num e)" and
    pos: "0 \<le> s" "0 \<le> e" and sum: "s + e + int (length (listeners w)) \<le> int (length q)" and
    st: "st \<or> (s = 0 \<and> e = 0 \<and> listeners w = [])"
    unfolding one_cycle_def by blast
  show ?thesis
  proof (cases x)
    case (QueueDownload p)
    have "snd (step x w) = debug (''Queued '' @ p @ '' for download'') None
             (w\<lparr>manager := (manager w)\<lparr>downloadQueue := Some (q @ [p])\<rparr>\<rparr>)"
      using q by (simp add: QueueDownload step_snd queueDownload_def del: step.simps)
    then show ?thesis using q c s e pos sum st
      by (auto simp: one_cycle_def QueueDownload)
  next
    case (DownloadAll cb)
    with assms(2) st have z: "s = 0" "e = 0" "listeners w = []" "\<not> st" by auto
    show ?thesis
    proof (cases "q = []")
      case True
      then have "snd (step x w) = invoke cb w"
        using q by (simp add: DownloadAll step_snd downloadAll_def del: step.simps)
      then show ?thesis using q c s e z True
        by (auto simp: one_cycle_def invoke_def DownloadAll)
    next
      case False
      have "snd (step x w) = snd (downloadAll cb w)"
        by (simp only: DownloadAll step_snd)
      then show ?thesis using q c s e z False
        by (auto simp: one_cycle_def downloadAll_result DownloadAll)
    qed
  next
    case IsDone
    have "snd (step x w) = w"
      using q by (simp add: IsDone step_snd isDone_def del: step.simps)
    then show ?thesis using q c s e pos sum st
      by (auto simp: one_cycle_def IsDone)
  next
    case (GetAsset p)
    have "manager (snd (step x w)) = manager w \<and> listeners (snd (step x w)) = listeners w"
      using c by (simp add: GetAsset step_snd getAsset_def del: step.simps split: option.splits)
    then show ?thesis using q c s e pos sum st
      by (auto simp: one_cycle_def GetAsset)
  next
    case (Settle i out)
    have w': "snd (step x w) = snd (settle i out w)"
      by (simp only: Settle step_snd)
    from settle_counts [OF q s e, of i out] obtain s' e' where
      "successCount (manager (snd (settle i out w))) = Some (Num s')"
      "errorCount (manager (snd (settle i out w))) = Some (Num e')"
      "s \<le> s'" "e \<le> e'"
      "s' + e' + int (length (listeners (snd (settle i out w)))) = s + e + int (length (listeners w))"
      by blast
    moreover have "st \<or> snd (settle i out w) = w"
      using st by (auto simp: settle_def)
    ultimately show ?thesis using q c s e pos sum st w'
      by (auto simp: one_cycle_def Settle)
  qed
qed

lemma run_one_cycle:
  "one_cycle st w \<Longrightarrow> (st \<Longrightarrow> downloadAlls xs = 0) \<Longrightarrow> downloadAlls xs \<le> 1 \<Longrightarrow>
   one_cycle (st \<or> downloadAlls xs = 1) (snd (run xs w))"
proof (induction xs arbitrary: st w)
  case Nil
  then show ?case by (simp add: downloadAlls_def)
next
  case (Cons x xs)
  have x: "is_downloadAll x \<Longrightarrow> \<not> st"
    using Cons.prems(2) by (auto simp: downloadAlls_def)
  from step_one_cycle [OF Cons.prems(1) x]
  have 1: "one_cycle (st \<or> is_downloadAll x) (snd (step x w))" by blast
  have 2: "st \<or> is_downloadAll x \<Longrightarrow> downloadAlls xs = 0"
    using Cons.prems(2,3) by (auto simp: downloadAlls_def split: if_splits)
  have 3: "downloadAlls xs \<le> 1"
    using Cons.prems(3) by (auto simp: downloadAlls_def split: if_splits)
  from Cons.IH [OF 1 2 3]
  have "one_cycle ((st \<or> is_downloadAll x) \<or> downloadAlls xs = 1) (snd (run xs (snd (step x w))))" .
  moreover have "((st \<or> is_downloadAll x) \<or> downloadAlls xs = 1) = (st \<or> downloadAlls (x # xs) = 1)"
    using 2 3 by (auto simp: downloadAlls_def)
  ultimately show ?case by (simp only: run_snd_Cons)
qed

lemma forget_idem [simp]: "forget_options (forget_options w) = forget_options w"
  by (simp add: forget_options_def comp_def)

lemma forget_debug: "debug m v (forget_options w) = forget_options (debug m v w)"
  by (simp add: debug_def forget_options_def split: option.splits)

lemma forget_invoke: "invoke cb (forget_options w) = forget_options (invoke cb w)"
  by (simp add: invoke_def forget_options_def)

lemma forget_fields [simp]:
  "successCount (manager (forget_options w)) = successCount (manager w)"
  "errorCount (manager (forget_options w)) = errorCount (manager w)"
  "cache (manager (forget_options w)) = cache (manager w)"
  "downloadQueue (manager (forget_options w)) = downloadQueue (manager w)"
  "this_debugging (manager (forget_options w)) = this_debugging (manager w)"
  "listeners (forget_options w) = listeners w"
  "images (forget_options w) = images w"
  "console (forget_options w) = console w"
  by (simp_all add: forget_options_def)

lemma forget_update:
  "(forget_options w)\<lparr>manager := (manager (forget_options w))\<lparr>downloadQueue := q\<rparr>\<rparr> =
     forget_options (w\<lparr>manager := (manager w)\<lparr>downloadQueue := q\<rparr>\<rparr>)"
  "(forget_options w)\<lparr>manager := (manager (forget_options w))\<lparr>successCount := n\<rparr>\<rparr> =
     forget_options (w\<lparr>manager := (manager w)\<lparr>successCount := n\<rparr>\<rparr>)"
  "(forget_options w)\<lparr>manager := (manager (forget_options w))\<lparr>errorCount := n\<rparr>\<rparr> =
     forget_options (w\<lparr>manager := (manager w)\<lparr>errorCount := n\<rparr>\<rparr>)"
  "(forget_options w)\<lparr>listeners := l\<rparr> = forget_options (w\<lparr>listeners := l\<rparr>)"
  "(forget_options (w\<lparr>images := i, listeners := l\<rparr>))
       \<lparr>manager := (manager (forget_options (w\<lparr>images := i, listeners := l\<rparr>)))\<lparr>cache := c\<rparr>\<rparr> =
     forget_options (w\<lparr>images := i, listeners := l, manager := (manager w)\<lparr>cache := c\<rparr>\<rparr>)"
  "(forget_options w)\<lparr>images := i, listeners := l\<rparr> =
     forget_options (w\<lparr>images := i, listeners := l\<rparr>)"
  by (intro world.equality AssetManager.equality; simp add: forget_options_def)+

lemma forget_queueDownload:
  "queueDownload p (forget_options w) = (fst (queueDownload p w), forget_options (snd (queueDownload p w)))"
  by (simp add: queueDownload_def forget_update forget_debug split: option.splits)

lemma forget_isDone:
  "isDone (forget_options w) = (fst (isDone w), forget_options (snd (isDone w)))"
  by (simp add: isDone_def split: option.splits)

lemma forget_getAsset:
  "getAsset p (forget_options w) = (fst (getAsset p w), forget_options (snd (getAsset p w)))"
  by (simp add: getAsset_def forget_debug split: option.splits)

lemma forget_issue:
  "issue cb ps (forget_options w) = (fst (issue cb ps w), forget_options (snd (issue cb ps w)))"
proof (induction ps arbitrary: w)
  case Nil
  show ?case by simp
next
  case (Cons p ps)
  show ?case
  proof (cases "cache (manager w)")
    case None
    then show ?thesis by (simp add: Let_def forget_update)
  next
    case (Some c)
    let ?w = "w\<lparr>images := Suc (images w),
            listeners := listeners w @ [\<lparr>img = images w, downloadPath = p, callback = cb\<rparr>],
            manager := (manager w)\<lparr>cache := Some (AList.update p (images w) c)\<rparr>\<rparr>"
    have 1: "issue cb (p # ps) w = issue cb ps ?w"
      using Some by (simp add: Let_def)
    have "issue cb (p # ps) (forget_options w) = issue cb ps (forget_options ?w)"
      using Some by (simp add: Let_def forget_update)
    then show ?thesis unfolding 1 by (simp only: Cons.IH)
  qed
qed

lemma forget_downloadAll:
  "downloadAll cb (forget_options w) = (fst (downloadAll cb w), forget_options (snd (downloadAll cb w)))"
proof (cases "downloadQueue (manager w)")
  case None
  then show ?thesis by (simp add: downloadAll_def)
next
  case (Some q)
  then show ?thesis
    by (simp add: downloadAll_def forget_issue forget_invoke)
qed

lemma forget_listener:
  "load_listener f (forget_options w) = (fst (load_listener f w), forget_options (snd (load_listener f w)))"
  "error_listener f (forget_options w) = (fst (error_listener f w), forget_options (snd (error_listener f w)))"
  unfolding load_listener_def error_listener_def Let_def forget_debug forget_fields forget_update
    forget_isDone
  by (simp_all add: forget_invoke split: completion.splits)

lemma forget_settle:
  "settle i out (forget_options w) = (fst (settle i out w), forget_options (snd (settle i out w)))"
  unfolding settle_def Let_def forget_fields forget_update
  by (simp add: forget_listener split: option.splits outcome.splits)

lemma forget_step:
  "step x (forget_options w) = (fst (step x w), forget_options (snd (step x w)))"
proof (cases x)
  case (QueueDownload p)
  show ?thesis unfolding QueueDownload step.simps forget_queueDownload
    by (simp split: prod.splits completion.splits)
next
  case (DownloadAll cb)
  show ?thesis unfolding DownloadAll step.simps forget_downloadAll
    by (simp split: prod.splits completion.splits)
next
  case IsDone
  show ?thesis unfolding IsDone step.simps forget_isDone
    by (simp split: prod.splits completion.splits)
next
  case (GetAsset p)
  show ?thesis unfolding GetAsset step.simps forget_getAsset
    by (simp split: prod.splits completion.splits)
next
  case (Settle i out)
  show ?thesis unfolding Settle step.simps forget_settle
    by (simp split: prod.splits completion.splits)
qed

lemma forget_run:
  "run xs (forget_options w) = (fst (run xs w), forget_options (snd (run xs w)))"
proof (induction xs arbitrary: w)
  case Nil
  show ?case by simp
next
  case (Cons x xs)
  show ?case
    by (simp add: forget_step Cons.IH split: prod.splits)
qed

lemma options_irrelevant:
  assumes "forget_options w1 = forget_options w2"
  shows "fst (run xs w1) = fst (run xs w2) \<and>
         forget_options (snd (run xs w1)) = forget_options (snd (run xs w2))"
proof -
  have "run xs (forget_options w1) = run xs (forget_options w2)"
    using assms by simp
  then show ?thesis by (simp add: forget_run)
qed

lemma issue_silent [simp]:
  "console (snd (issue cb ps w)) = console w"
  "this_debugging (manager (snd (issue cb ps w))) = this_debugging (manager w)"
  by (induction ps arbitrary: w) (simp_all add: Let_def split: option.splits)

lemma listener_debugging:
  "this_debugging (manager (snd (load_listener f w))) = this_debugging (manager w)"
  "this_debugging (manager (snd (error_listener f w))) = this_debugging (manager w)"
  by (auto simp: load_listener_def error_listener_def Let_def invoke_def split: completion.splits)

lemma listener_silent:
  assumes "\<not> truthy (this_debugging (manager w))"
  shows "console (snd (load_listener f w)) = console w"
    and "console (snd (error_listener f w)) = console w"
  using assms
  by (auto simp: load_listener_def error_listener_def Let_def invoke_def debug_silent
      split: completion.splits)

lemma step_debugging:
  "this_debugging (manager (snd (step x w))) = this_debugging (manager w)"
proof (cases x)
  case (QueueDownload p)
  have "this_debugging (manager (snd (queueDownload p w))) = this_debugging (manager w)"
    by (simp add: queueDownload_def split: option.splits)
  then show ?thesis by (simp only: QueueDownload step_snd)
next
  case (DownloadAll cb)
  have "this_debugging (manager (snd (downloadAll cb w))) = this_debugging (manager w)"
    by (simp add: downloadAll_def invoke_def split: option.splits)
  then show ?thesis by (simp only: DownloadAll step_snd)
next
  case IsDone
  have "this_debugging (manager (snd (isDone w))) = this_debugging (manager w)"
    by (simp add: isDone_def split: option.splits)
  then show ?thesis by (simp only: IsDone step_snd)
next
  case (GetAsset p)
  have "this_debugging (manager (snd (getAsset p w))) = this_debugging (manager w)"
    by (simp add: getAsset_def split: option.splits)
  then show ?thesis by (simp only: GetAsset step_snd)
next
  case (Settle i out)
  have "this_debugging (manager (snd (settle i out w))) = this_debugging (manager w)"
    by (simp add: settle_def Let_def listener_debugging split: option.splits outcome.splits)
  then show ?thesis by (simp only: Settle step_snd)
qed

lemma step_silent:
  assumes "\<not> truthy (this_debugging (manager w))"
  shows "console (snd (step x w)) = console w"
proof (cases x)
  case (QueueDownload p)
  have "console (snd (queueDownload p w)) = console w"
    using assms by (simp add: queueDownload_def debug_silent split: option.splits)
  then show ?thesis by (simp only: QueueDownload step_snd)
next
  case (DownloadAll cb)
  have "console (snd (downloadAll cb w)) = console w"
    by (simp add: downloadAll_def invoke_def split: option.splits)
  then show ?thesis by (simp only: DownloadAll step_snd)
next
  case IsDone
  have "console (snd (isDone w)) = console w"
    by (simp add: isDone_def split: option.splits)
  then show ?thesis by (simp only: IsDone step_snd)
next
  case (GetAsset p)
  have "console (snd (getAsset p w)) = console w"
    using assms by (simp add: getAsset_def debug_silent split: option.splits)
  then show ?thesis by (simp only: GetAsset step_snd)
next
  case (Settle i out)
  have "console (snd (settle i out w)) = console w"
    using assms by (simp add: settle_def Let_def listener_silent split: option.splits outcome.splits)
  then show ?thesis by (simp only: Settle step_snd)
qed

lemma run_silent:
  "\<not> truthy (this_debugging (manager w)) \<Longrightarrow> console (snd (run xs w)) = console w"
proof (induction xs arbitrary: w)
  case Nil
  show ?case by simp
next
  case (Cons x xs)
  have "\<not> truthy (this_debugging (manager (snd (step x w))))"
    unfolding step_debugging by (rule Cons.prems)
  then have "console (snd (run xs (snd (step x w)))) = console (snd (step x w))"
    by (rule Cons.IH)
  also have "\<dots> = console w" using Cons.prems by (rule step_silent)
  finally show ?case by (simp only: run_snd_Cons)
qed

lemma constructor_result:
  "constructor declared arg = Throw ReferenceError \<or>
   constructor declared arg =
        Normal \<lparr>successCount = None, errorCount = None, cache = None, downloadQueue = None,
          options = (case arg of None \<Rightarrow> \<lparr>debugging = False\<rparr> | Some v \<Rightarrow> v),
          this_debugging = None\<rparr>"
  unfolding constructor_def Let_def by (simp split: if_splits)

lemma constructor_throws_same:
  "constructor declared a1 = Throw ReferenceError \<longleftrightarrow> constructor declared a2 = Throw ReferenceError"
  unfolding constructor_def Let_def by (simp split: if_splits)

lemma step_zero_while_empty:
  assumes "zero_while_empty w"
  shows "zero_while_empty (snd (step x w))"
proof -
  from assms obtain q c s e where
    q: "downloadQueue (manager w) = Some q" and c: "cache (manager w) = Some c" and
    s: "successCount (manager w) = Some (Num s)" and e: "errorCount (manager w) = Some (Num e)" and
    z: "q = [] \<Longrightarrow> s = 0 \<and> e = 0 \<and> listeners w = []"
    unfolding zero_while_empty_def by blast
  show ?thesis
  proof (cases x)
    case (QueueDownload p)
    have "zero_while_empty (snd (queueDownload p w))"
      using q c s e by (simp add: queueDownload_def zero_while_empty_def)
    then show ?thesis by (simp only: QueueDownload step_snd)
  next
    case (DownloadAll cb)
    have "zero_while_empty (snd (downloadAll cb w))"
    proof (cases "q = []")
      case True
      then show ?thesis using q c s e z
        by (simp add: downloadAll_def invoke_def zero_while_empty_def)
    next
      case False
      then show ?thesis using q c s e
        by (simp add: downloadAll_result zero_while_empty_def)
    qed
    then show ?thesis by (simp only: DownloadAll step_snd)
  next
    case IsDone
    have "zero_while_empty (snd (isDone w))"
      using assms q by (simp add: isDone_def)
    then show ?thesis by (simp only: IsDone step_snd)
  next
    case (GetAsset p)
    have "zero_while_empty (snd (getAsset p w))"
      using q c s e z by (simp add: getAsset_def zero_while_empty_def split: option.splits)
    then show ?thesis by (simp only: GetAsset step_snd)
  next
    case (Settle i out)
    have "zero_while_empty (snd (settle i out w))"
    proof (cases "q = []")
      case True
      then have "settle i out w = (Normal (), w)" using z by (simp add: settle_def)
      then show ?thesis using assms by simp
    next
      case False
      from settle_counts [OF q s e, of i out] obtain s' e' where
        "successCount (manager (snd (settle i out w))) = Some (Num s')"
        "errorCount (manager (snd (settle i out w))) = Some (Num e')"
        by blast
      then show ?thesis using q c False
        by (simp add: zero_while_empty_def)
    qed
    then show ?thesis by (simp only: Settle step_snd)
  qed
qed

lemma run_zero_while_empty:
  "zero_while_empty w \<Longrightarrow> zero_while_empty (snd (run xs w))"
proof (induction xs arbitrary: w)
  case Nil
  then show ?case by simp
next
  case (Cons x xs)
  from Cons.prems have "zero_while_empty (snd (step x w))" by (rule step_zero_while_empty)
  then have "zero_while_empty (snd (run xs (snd (step x w))))" by (rule Cons.IH)
  then show ?case by (simp only: run_snd_Cons)
qed






section \<open>The claims\<close>




text \<open>
  Claim C2. Start from an instance with a queue, a cache, both counters \<open>0\<close> and nothing
  pending. After any run of operations that calls \<^verbatim>\<open>downloadAll\<close> at most once
  (\<^verbatim>\<open>queueDownload\<close> calls and settle events in any number and order), both counters
  are non-negative integers with \<^verbatim>\<open>successCount + errorCount <= downloadQueue.length\<close>,
  and one more step of such a run decreases neither counter.
\<close>

theorem counters_bounded_and_monotone:
  assumes "downloadQueue (manager w) = Some q0" and "cache (manager w) = Some c0"
    and "successCount (manager w) = Some (Num 0)" and "errorCount (manager w) = Some (Num 0)"
    and "listeners w = []"
    and "downloadAlls xs \<le> 1"
  shows "\<exists>q s e. downloadQueue (manager (snd (run xs w))) = Some q \<and>
     successCount (manager (snd (run xs w))) = Some (Num s) \<and>
     errorCount (manager (snd (run xs w))) = Some (Num e) \<and>
     0 \<le> s \<and> 0 \<le> e \<and> s + e \<le> int (length q) \<and>
     (\<forall>x. downloadAlls (xs @ [x]) \<le> 1 \<longrightarrow>
        (\<exists>s' e'. successCount (manager (snd (run (xs @ [x]) w))) = Some (Num s') \<and>
           errorCount (manager (snd (run (xs @ [x]) w))) = Some (Num e') \<and>
           s \<le> s' \<and> e \<le> e'))"
proof -
  let ?w = "snd (run xs w)"
  have "one_cycle False w"
    using assms(1-5) by (simp add: one_cycle_def)
  from run_one_cycle [OF this _ assms(6)]
  have inv: "one_cycle (downloadAlls xs = 1) ?w" by simp
  then obtain q s e where
    q: "downloadQueue (manager ?w) = Some q" and
    s: "successCount (manager ?w) = Some (Num s)" and
    e: "errorCount (manager ?w) = Some (Num e)" and
    b: "0 \<le> s" "0 \<le> e" "s + e + int (length (listeners ?w)) \<le> int (length q)"
    unfolding one_cycle_def by blast
  have "\<exists>s' e'. successCount (manager (snd (run (xs @ [x]) w))) = Some (Num s') \<and>
           errorCount (manager (snd (run (xs @ [x]) w))) = Some (Num e') \<and>
           s \<le> s' \<and> e \<le> e'" if "downloadAlls (xs @ [x]) \<le> 1" for x
  proof -
    have "is_downloadAll x \<Longrightarrow> \<not> downloadAlls xs = 1"
      using that by (auto simp: downloadAlls_def)
    from step_one_cycle [OF inv this] s e show ?thesis
      by (auto simp: run_snd_append)
  qed
  then show ?thesis using q s e b by auto
qed

theorem counters_bounded_and_monotone_witness:
  "downloadAlls [QueueDownload ''a.png'', DownloadAll 7, Settle 0 Failed] \<le> 1 \<and>
   (\<exists>q s e.
     downloadQueue (manager (snd (run [QueueDownload ''a.png'', DownloadAll 7, Settle 0 Failed]
        (new_world (queued []))))) = Some q \<and>
     successCount (manager (snd (run [QueueDownload ''a.png'', DownloadAll 7, Settle 0 Failed]
        (new_world (queued []))))) = Some (Num s) \<and>
     errorCount (manager (snd (run [QueueDownload ''a.png'', DownloadAll 7, Settle 0 Failed]
        (new_world (queued []))))) = Some (Num e) \<and>
     0 \<le> s \<and> 0 \<le> e \<and> s + e \<le> int (length q) \<and>
     (\<forall>x. downloadAlls ([QueueDownload ''a.png'', DownloadAll 7, Settle 0 Failed] @ [x]) \<le> 1 \<longrightarrow>
        (\<exists>s' e'. successCount (manager (snd (run
               ([QueueDownload ''a.png'', DownloadAll 7, Settle 0 Failed] @ [x])
               (new_world (queued []))))) = Some (Num s') \<and>
           errorCount (manager (snd (run
               ([QueueDownload ''a.png'', DownloadAll 7, Settle 0 Failed] @ [x])
               (new_world (queued []))))) = Some (Num e') \<and>
           s \<le> s' \<and> e \<le> e')))"
proof (rule conjI)
  show h: "downloadAlls [QueueDownload ''a.png'', DownloadAll 7, Settle 0 Failed] \<le> 1"
    by (simp add: downloadAlls_def)
  show "\<exists>q s e.
     downloadQueue (manager (snd (run [QueueDownload ''a.png'', DownloadAll 7, Settle 0 Failed]
        (new_world (queued []))))) = Some q \<and>
     successCount (manager (snd (run [QueueDownload ''a.png'', DownloadAll 7, Settle 0 Failed]
        (new_world (queued []))))) = Some (Num s) \<and>
     errorCount (manager (snd (run [QueueDownload ''a.png'', DownloadAll 7, Settle 0 Failed]
        (new_world (queued []))))) = Some (Num e) \<and>
     0 \<le> s \<and> 0 \<le> e \<and> s + e \<le> int (length q) \<and>
     (\<forall>x. downloadAlls ([QueueDownload ''a.png'', DownloadAll 7, Settle 0 Failed] @ [x]) \<le> 1 \<longrightarrow>
        (\<exists>s' e'. successCount (manager (snd (run
               ([QueueDownload ''a.png'', DownloadAll 7, Settle 0 Failed] @ [x])
               (new_world (queued []))))) = Some (Num s') \<and>
           errorCount (manager (snd (run
               ([QueueDownload ''a.png'', DownloadAll 7, Settle 0 Failed] @ [x])
               (new_world (queued []))))) = Some (Num e') \<and>
           s \<le> s' \<and> e \<le> e'))"
    by (rule counters_bounded_and_monotone [where ?q0.0 = "[]" and ?c0.0 = "[]", OF _ _ _ _ _ h])
       (simp_all add: new_world_def queued_def)
qed

text \<open>
  Claim C3. On an instance whose queue is empty, \<^verbatim>\<open>downloadAll(onComplete)\<close> returns
  normally having called \<^verbatim>\<open>onComplete\<close> exactly once, during the call itself; it
  creates no image and issues no fetch, and it leaves the instance (counters and cache
  among the rest) as it was. Both counters are \<open>0\<close> afterwards whenever the instance
  was reached, by any run of operations, from one with both counters \<open>0\<close> and nothing
  pending.
\<close>

theorem downloadAll_empty_queue:
  assumes "downloadQueue (manager w) = Some []"
  shows "fst (downloadAll cb w) = Normal () \<and>
     invoked (snd (downloadAll cb w)) =
       invoked w @ [\<lparr>call_fn = cb, call_args = [], call_state = manager w\<rparr>] \<and>
     listeners (snd (downloadAll cb w)) = listeners w \<and>
     images (snd (downloadAll cb w)) = images w \<and>
     manager (snd (downloadAll cb w)) = manager w \<and>
     (successCount (manager w0) = Some (Num 0) \<and> errorCount (manager w0) = Some (Num 0) \<and>
      downloadQueue (manager w0) = Some q0 \<and> cache (manager w0) = Some c0 \<and>
      listeners w0 = [] \<and> w = snd (run xs w0) \<longrightarrow>
      successCount (manager (snd (downloadAll cb w))) = Some (Num 0) \<and>
      errorCount (manager (snd (downloadAll cb w))) = Some (Num 0))"
proof -
  have base: "fst (downloadAll cb w) = Normal () \<and>
     invoked (snd (downloadAll cb w)) =
       invoked w @ [\<lparr>call_fn = cb, call_args = [], call_state = manager w\<rparr>] \<and>
     listeners (snd (downloadAll cb w)) = listeners w \<and>
     images (snd (downloadAll cb w)) = images w \<and>
     manager (snd (downloadAll cb w)) = manager w"
    using assms by (simp add: downloadAll_def invoke_def)
  have "successCount (manager (snd (downloadAll cb w))) = Some (Num 0) \<and>
      errorCount (manager (snd (downloadAll cb w))) = Some (Num 0)"
    if "successCount (manager w0) = Some (Num 0) \<and> errorCount (manager w0) = Some (Num 0) \<and>
      downloadQueue (manager w0) = Some q0 \<and> cache (manager w0) = Some c0 \<and>
      listeners w0 = [] \<and> w = snd (run xs w0)"
  proof -
    have "zero_while_empty w0" using that by (simp add: zero_while_empty_def)
    then have "zero_while_empty (snd (run xs w0))" by (rule run_zero_while_empty)
    then have "zero_while_empty w" using that by simp
    then have "successCount (manager w) = Some (Num 0) \<and> errorCount (manager w) = Some (Num 0)"
      using assms by (auto simp: zero_while_empty_def)
    then show ?thesis using base by simp
  qed
  with base show ?thesis by blast
qed

theorem downloadAll_empty_queue_witness:
  "downloadQueue (manager (snd (run [IsDone] (new_world (queued []))))) = Some [] \<and>
   fst (downloadAll 7 (snd (run [IsDone] (new_world (queued []))))) = Normal () \<and>
   invoked (snd (downloadAll 7 (snd (run [IsDone] (new_world (queued [])))))) =
     [\<lparr>call_fn = 7, call_args = [], call_state = queued []\<rparr>] \<and>
   listeners (snd (downloadAll 7 (snd (run [IsDone] (new_world (queued [])))))) = [] \<and>
   images (snd (downloadAll 7 (snd (run [IsDone] (new_world (queued [])))))) = 0 \<and>
   manager (snd (downloadAll 7 (snd (run [IsDone] (new_world (queued [])))))) = queued [] \<and>
   successCount (manager (snd (downloadAll 7 (snd (run [IsDone] (new_world (queued []))))))) =
     Some (Num 0) \<and>
   errorCount (manager (snd (downloadAll 7 (snd (run [IsDone] (new_world (queued []))))))) =
     Some (Num 0)"
proof -
  let ?w0 = "new_world (queued [])"
  have r: "snd (run [IsDone] ?w0) = ?w0"
    by (simp add: isDone_def new_world_def queued_def)
  have h: "downloadQueue (manager (snd (run [IsDone] ?w0))) = Some []"
    unfolding r by (simp add: new_world_def queued_def)
  have h0: "successCount (manager ?w0) = Some (Num 0)" "errorCount (manager ?w0) = Some (Num 0)"
    "downloadQueue (manager ?w0) = Some []" "cache (manager ?w0) = Some []" "listeners ?w0 = []"
    by (simp_all add: new_world_def queued_def)
  from downloadAll_empty_queue [OF h, where cb = 7 and ?w0.0 = ?w0 and ?q0.0 = "[]"
      and ?c0.0 = "[]" and xs = "[IsDone]"] h0 h
  show ?thesis unfolding r by (simp add: new_world_def queued_def)
qed







text \<open>
  Claim C6. A fetch that settles as failed, on an instance with a queue and numeric
  counters, does not throw: its listener completes normally, changes nothing in the
  instance but \<^verbatim>\<open>errorCount\<close>, which it increments, and leaves the other fetches
  pending. The callback is called after a failure under the same condition as after a
  success, namely when the counters then add up to the length of the queue. Every call
  of a callback, in any run, passes no arguments.
\<close>

theorem failed_fetch_is_counted:
  assumes "downloadQueue (manager w) = Some q"
    and "successCount (manager w) = Some (Num s)"
    and "errorCount (manager w) = Some (Num e)"
    and "find (\<lambda>g. img g = i) (listeners w) = Some f"
  shows "fst (settle i Failed w) = Normal () \<and>
     manager (snd (settle i Failed w)) = (manager w)\<lparr>errorCount := Some (Num (e + 1))\<rparr> \<and>
     listeners (snd (settle i Failed w)) = remove1 f (listeners w) \<and>
     images (snd (settle i Failed w)) = images w \<and>
     invoked (snd (settle i Failed w)) =
       (if s + e + 1 = int (length q)
        then invoked w @ [\<lparr>call_fn = callback f, call_args = [],
                           call_state = manager (snd (settle i Failed w))\<rparr>]
        else invoked w) \<and>
     fst (settle i Loaded w) = Normal () \<and>
     invoked (snd (settle i Loaded w)) =
       (if s + e + 1 = int (length q)
        then invoked w @ [\<lparr>call_fn = callback f, call_args = [],
                           call_state = manager (snd (settle i Loaded w))\<rparr>]
        else invoked w) \<and>
     (no_arguments w \<longrightarrow> no_arguments (snd (run xs w)))"
proof -
  let ?w1 = "w\<lparr>listeners := remove1 f (listeners w)\<rparr>"
  have F: "settle i Failed w = error_listener f ?w1"
    and L: "settle i Loaded w = load_listener f ?w1"
    using assms(4) by (simp_all add: settle_def)
  have q: "downloadQueue (manager ?w1) = Some q"
    and s: "successCount (manager ?w1) = Some (Num s)"
    and e: "errorCount (manager ?w1) = Some (Num e)"
    using assms(1-3) by simp_all
  show ?thesis
    unfolding F L listener_result(1) [OF q s e] listener_result(2) [OF q s e]
    by (simp add: Let_def invoke_def run_no_arguments)
qed

theorem failed_fetch_is_counted_witness:
  "downloadQueue (manager (snd (downloadAll 7 (new_world (queued [''a.png'']))))) = Some [''a.png''] \<and>
   fst (settle 0 Failed (snd (downloadAll 7 (new_world (queued [''a.png''])))))  = Normal () \<and>
   manager (snd (settle 0 Failed (snd (downloadAll 7 (new_world (queued [''a.png'']))))))
     = (queued [''a.png''])\<lparr>errorCount := Some (Num 1), cache := Some [(''a.png'', 0)]\<rparr> \<and>
   listeners (snd (settle 0 Failed (snd (downloadAll 7 (new_world (queued [''a.png'']))))))  = [] \<and>
   invoked (snd (settle 0 Failed (snd (downloadAll 7 (new_world (queued [''a.png'']))))))  = 
     [\<lparr>call_fn = 7, call_args = [],
       call_state = (queued [''a.png''])\<lparr>errorCount := Some (Num 1), cache := Some [(''a.png'', 0)]\<rparr>\<rparr>] \<and>
   invoked (snd (settle 0 Loaded (snd (downloadAll 7 (new_world (queued [''a.png'']))))))  = 
     [\<lparr>call_fn = 7, call_args = [],
       call_state = manager (snd (settle 0 Loaded (snd (downloadAll 7 (new_world (queued [''a.png'']))))))\<rparr>] \<and>
   no_arguments (snd (run [Settle 0 Failed] (snd (downloadAll 7 (new_world (queued [''a.png'']))))))"
proof -
  let ?w = "snd (downloadAll 7 (new_world (queued [''a.png''])))"
  have w: "?w = \<lparr>manager = (queued [''a.png''])\<lparr>cache := Some [(''a.png'', 0)]\<rparr>,
      listeners = [\<lparr>img = 0, downloadPath = ''a.png'', callback = 7\<rparr>],
      invoked = [], console = [], images = 1\<rparr>"
    by (simp add: downloadAll_def new_world_def queued_def)
  have h1: "downloadQueue (manager ?w) = Some [''a.png'']"
    and h2: "successCount (manager ?w) = Some (Num 0)"
    and h3: "errorCount (manager ?w) = Some (Num 0)"
    and h4: "find (\<lambda>g. img g = 0) (listeners ?w) = Some \<lparr>img = 0, downloadPath = ''a.png'', callback = 7\<rparr>"
    and h5: "no_arguments ?w"
    unfolding w by (simp_all add: queued_def no_arguments_def)
  show ?thesis
    using failed_fetch_is_counted [OF h1 h2 h3 h4, of "[Settle 0 Failed]"] h1 h5
    unfolding w by (simp add: queued_def)
qed

text \<open>
  Claim C7. \<^verbatim>\<open>isDone()\<close> changes nothing (queue, cache, counters and everything else
  are as before the call), and on an instance with a queue and numeric counters it
  returns true if and only if \<^verbatim>\<open>successCount + errorCount\<close> equals the length of the
  queue at the time of the call.
\<close>

theorem isDone_pure:
  "snd (isDone w) = w \<and>
   (downloadQueue (manager w) = Some q \<and> successCount (manager w) = Some (Num s) \<and>
    errorCount (manager w) = Some (Num e)
    \<longrightarrow> fst (isDone w) = Normal (s + e = int (length q)))"
  by (auto simp: isDone_def strict_equals_def to_number_def split: option.splits)

theorem isDone_pure_witness:
  "snd (isDone (new_world (queued [''a.png'']))) = new_world (queued [''a.png'']) \<and>
   downloadQueue (manager (new_world (queued [''a.png'']))) = Some [''a.png''] \<and>
   successCount (manager (new_world (queued [''a.png'']))) = Some (Num 0) \<and>
   errorCount (manager (new_world (queued [''a.png'']))) = Some (Num 0) \<and>
   fst (isDone (new_world (queued [''a.png'']))) = Normal (0 + 0 = int (length [''a.png'']))"
  using isDone_pure [of "new_world (queued [''a.png''])" "[''a.png'']" 0 0]
  by (simp add: new_world_def queued_def)

text \<open>
  Claim C8. Two worlds that differ in the option object only give, for the same
  operations and settle events, the same returned values and the same resulting worlds
  up to the option object (queue, cache, counters, calls of callbacks, console output).
  Two constructions that differ in the constructor's argument only either both throw the
  same error, or both succeed and then behave in this way, with nothing ever logged. In
  any world where \<^verbatim>\<open>this.debugging\<close> is not truthy, whatever
  \<^verbatim>\<open>this.options.debugging\<close> is, no operation logs anything.
\<close>

theorem options_have_no_effect:
  "(forget_options w1 = forget_options w2 \<longrightarrow>
      fst (run xs w1) = fst (run xs w2) \<and>
      forget_options (snd (run xs w1)) = forget_options (snd (run xs w2))) \<and>
   (case session declared a1 xs of
      Throw e \<Rightarrow> session declared a2 xs = Throw e
    | Normal (rs, v1) \<Rightarrow>
        (\<exists>v2. session declared a2 xs = Normal (rs, v2) \<and>
              forget_options v1 = forget_options v2 \<and> console v1 = [] \<and> console v2 = [])) \<and>
   (\<not> truthy (this_debugging (manager w)) \<longrightarrow> console (snd (run xs w)) = console w)"
proof -
  have 1: "fst (run xs w1) = fst (run xs w2) \<and>
      forget_options (snd (run xs w1)) = forget_options (snd (run xs w2))"
    if "forget_options w1 = forget_options w2"
    using that by (rule options_irrelevant)
  have 3: "console (snd (run xs w)) = console w" if "\<not> truthy (this_debugging (manager w))"
    using that by (rule run_silent)
  let ?m1 = "\<lparr>successCount = None, errorCount = None, cache = None, downloadQueue = None,
          options = (case a1 of None \<Rightarrow> \<lparr>debugging = False\<rparr> | Some v \<Rightarrow> v),
          this_debugging = None\<rparr>"
  let ?m2 = "\<lparr>successCount = None, errorCount = None, cache = None, downloadQueue = None,
          options = (case a2 of None \<Rightarrow> \<lparr>debugging = False\<rparr> | Some v \<Rightarrow> v),
          this_debugging = None\<rparr>"
  have 2: "case session declared a1 xs of
      Throw e \<Rightarrow> session declared a2 xs = Throw e
    | Normal (rs, v1) \<Rightarrow>
        (\<exists>v2. session declared a2 xs = Normal (rs, v2) \<and>
              forget_options v1 = forget_options v2 \<and> console v1 = [] \<and> console v2 = [])"
  proof (cases "constructor declared a1 = Throw ReferenceError")
    case True
    moreover from True have "constructor declared a2 = Throw ReferenceError"
      using constructor_throws_same [of declared a1 a2] by blast
    ultimately show ?thesis by (simp add: session_def)
  next
    case False
    then have c1: "constructor declared a1 = Normal ?m1"
      using constructor_result [of declared a1] by blast
    from False have "constructor declared a2 \<noteq> Throw ReferenceError"
      using constructor_throws_same [of declared a1 a2] by blast
    then have c2: "constructor declared a2 = Normal ?m2"
      using constructor_result [of declared a2] by blast
    obtain rs v1 where r1: "run xs (new_world ?m1) = (rs, v1)"
      by (cases "run xs (new_world ?m1)")
    obtain rs' v2 where r2: "run xs (new_world ?m2) = (rs', v2)"
      by (cases "run xs (new_world ?m2)")
    have "forget_options (new_world ?m1) = forget_options (new_world ?m2)"
      by (simp add: forget_options_def new_world_def)
    from options_irrelevant [OF this, of xs]
    have eq: "rs = rs'" "forget_options v1 = forget_options v2"
      by (simp_all add: r1 r2)
    have s1: "\<not> truthy (this_debugging (manager (new_world ?m1)))"
      and s2: "\<not> truthy (this_debugging (manager (new_world ?m2)))"
      by (simp_all add: new_world_def truthy_def)
    have "console v1 = console (new_world ?m1)"
      using run_silent [OF s1, of xs] by (simp add: r1)
    then have k1: "console v1 = []" by (simp add: new_world_def)
    have "console v2 = console (new_world ?m2)"
      using run_silent [OF s2, of xs] by (simp add: r2)
    then have k2: "console v2 = []" by (simp add: new_world_def)
    have "session declared a1 xs = Normal (rs, v1)" "session declared a2 xs = Normal (rs, v2)"
      by (simp_all add: session_def c1 c2 r1 r2 eq)
    then show ?thesis using eq k1 k2 by simp
  qed
  from 1 2 3 show ?thesis by blast
qed

theorem options_have_no_effect_witness:
  "forget_options (new_world ((queued [''a.png''])\<lparr>options := \<lparr>debugging = True\<rparr>\<rparr>)) =
     forget_options (new_world (queued [''a.png''])) \<and>
   fst (run [DownloadAll 7, Settle 0 Loaded, IsDone]
          (new_world ((queued [''a.png''])\<lparr>options := \<lparr>debugging = True\<rparr>\<rparr>))) =
     fst (run [DownloadAll 7, Settle 0 Loaded, IsDone] (new_world (queued [''a.png'']))) \<and>
   forget_options (snd (run [DownloadAll 7, Settle 0 Loaded, IsDone]
          (new_world ((queued [''a.png''])\<lparr>options := \<lparr>debugging = True\<rparr>\<rparr>)))) =
     forget_options (snd (run [DownloadAll 7, Settle 0 Loaded, IsDone]
          (new_world (queued [''a.png''])))) \<and>
   \<not> truthy (this_debugging (manager
          (new_world ((queued [''a.png''])\<lparr>options := \<lparr>debugging = True\<rparr>\<rparr>)))) \<and>
   console (snd (run [DownloadAll 7, Settle 0 Loaded, IsDone]
          (new_world ((queued [''a.png''])\<lparr>options := \<lparr>debugging = True\<rparr>\<rparr>)))) = [] \<and>
   session {} (Some \<lparr>debugging = True\<rparr>) [DownloadAll 7, Settle 0 Loaded, IsDone]
     = Throw ReferenceError \<and>
   session {} None [DownloadAll 7, Settle 0 Loaded, IsDone] = Throw ReferenceError"
proof -
  let ?w1 = "new_world ((queued [''a.png''])\<lparr>options := \<lparr>debugging = True\<rparr>\<rparr>)"
  let ?w2 = "new_world (queued [''a.png''])"
  let ?xs = "[DownloadAll 7, Settle 0 Loaded, IsDone]"
  have h1: "forget_options ?w1 = forget_options ?w2"
    by (simp add: forget_options_def new_world_def queued_def)
  have h2: "\<not> truthy (this_debugging (manager ?w1))"
    by (simp add: new_world_def queued_def truthy_def)
  have h3: "session {} (Some \<lparr>debugging = True\<rparr>) ?xs = Throw ReferenceError"
    by (simp add: session_def constructor_def)
  have h4: "console ?w1 = []"
    by (simp add: new_world_def)
  from options_have_no_effect [where ?w1.0 = ?w1 and ?w2.0 = ?w2 and xs = ?xs and declared = "{}"
      and ?a1.0 = "Some \<lparr>debugging = True\<rparr>" and ?a2.0 = None and w = ?w1]
  show ?thesis using h1 h2 h3 h4 by (simp del: run.simps step.simps)
qed



text \<open>
  Claim C10 at a freshly constructed instance. Whatever the argument and the enclosing
  scope, \<^verbatim>\<open>new AssetManager(arg)\<close> throws a \<^verbatim>\<open>ReferenceError\<close> (so it does where
  nothing is declared), or it returns an instance without \<^verbatim>\<open>downloadQueue\<close> on which
  \<^verbatim>\<open>isDone()\<close> throws a \<^verbatim>\<open>TypeError\<close>: \<^verbatim>\<open>isDone()\<close> does not return true
  there. On an instance with the fields the constructor's comments describe,
  \<^verbatim>\<open>isDone()\<close> returns true while the queue is empty, returns true after a completed
  cycle, and returns false again once another path is queued.
\<close>

theorem fresh_manager_isDone_throws:
  "(session declared arg [IsDone] = Throw ReferenceError \<or>
    (\<exists>m. session declared arg [IsDone] = Normal ([Throw TypeError], new_world m))) \<and>
   session {} None [IsDone] = Throw ReferenceError \<and>
   fst (isDone (new_world (queued []))) = Normal True \<and>
   fst (isDone (snd (run [DownloadAll 7, Settle 0 Loaded] (new_world (queued [''a.png''])))))
     = Normal True \<and>
   fst (isDone (snd (run [DownloadAll 7, Settle 0 Loaded, QueueDownload ''b.png'']
     (new_world (queued [''a.png''])))))
     = Normal False"
proof -
  have 1: "session declared arg [IsDone] = Throw ReferenceError \<or>
    (\<exists>m. session declared arg [IsDone] = Normal ([Throw TypeError], new_world m))"
  proof (cases "constructor declared arg = Throw ReferenceError")
    case True
    then show ?thesis by (simp add: session_def)
  next
    case False
    let ?m = "\<lparr>successCount = None, errorCount = None, cache = None, downloadQueue = None,
          options = (case arg of None \<Rightarrow> \<lparr>debugging = False\<rparr> | Some v \<Rightarrow> v),
          this_debugging = None\<rparr>"
    from False have c: "constructor declared arg = Normal ?m"
      using constructor_result [of declared arg] by blast
    have "isDone (new_world ?m) = (Throw TypeError, new_world ?m)"
      by (simp add: isDone_def new_world_def)
    then have "run [IsDone] (new_world ?m) = ([Throw TypeError], new_world ?m)"
      by simp
    then have "session declared arg [IsDone] = Normal ([Throw TypeError], new_world ?m)"
      by (simp add: session_def c)
    then show ?thesis by blast
  qed
  have 2: "session {} None [IsDone] = Throw ReferenceError"
    by (simp add: session_def constructor_def)
  have 3: "fst (isDone (new_world (queued []))) = Normal True"
    by (simp add: isDone_def new_world_def queued_def to_number_def strict_equals_def)
  have 4: "fst (isDone (snd (run [DownloadAll 7, Settle 0 Loaded] (new_world (queued [''a.png''])))))
     = Normal True"
    by (simp add: new_world_def queued_def downloadAll_def settle_def load_listener_def isDone_def
     debug_def truthy_def increment_def to_number_def strict_equals_def invoke_def Let_def)
  have 5: "fst (isDone (snd (run [DownloadAll 7, Settle 0 Loaded, QueueDownload ''b.png'']
     (new_world (queued [''a.png''])))))
     = Normal False"
    by (simp add: new_world_def queued_def downloadAll_def settle_def load_listener_def isDone_def
     debug_def truthy_def increment_def to_number_def strict_equals_def invoke_def Let_def
     queueDownload_def)
  from 1 2 3 4 5 show ?thesis by blast
qed

end
